theory Spec2Isabelle
  imports Main "HOL-Library.Word"
begin

section \<open>JavaScript strings\<close>

text \<open>
  A JavaScript string is a sequence of UTF-16 code units, and every index and length of
  the formatting engine counts code units. Two limits of the language are part of the
  model, since a user can reach them by the counts entered for a table: the largest array
  length \<open>2^32 - 1\<close> of \<open>Array(n)\<close>, and the largest string length of the engine, which
  differs between engines and is a parameter given by the host. The memory of the engine
  is outside the model, and so is the string limit for the strings that are at most as
  long as the document and the text entered.
\<close>

type_synonym code_unit = "16 word"
type_synonym jsstring = "code_unit list"

definition lit :: "string \<Rightarrow> jsstring" where
  "lit s = map of_char s"

definition LF :: code_unit where
  "LF = 0x0A"

text \<open>
  The code units that \<open>trim\<close>, the regular expression class \<open>\s\<close> and \<open>parseInt\<close> skip:
  the WhiteSpace and LineTerminator productions of ECMAScript.
\<close>

definition isWhiteSpace :: "code_unit \<Rightarrow> bool" where
  "isWhiteSpace c \<longleftrightarrow>
     c = 0x09 \<or> c = 0x0A \<or> c = 0x0B \<or> c = 0x0C \<or> c = 0x0D \<or> c = 0x20 \<or> c = 0xA0 \<or>
     c = 0x1680 \<or> (0x2000 \<le> c \<and> c \<le> 0x200A) \<or> c = 0x2028 \<or> c = 0x2029 \<or>
     c = 0x202F \<or> c = 0x205F \<or> c = 0x3000 \<or> c = 0xFEFF"

text \<open>The class \<open>\d\<close> and the digits of radix 10: \<open>0\<close> to \<open>9\<close>.\<close>

definition isDigit :: "code_unit \<Rightarrow> bool" where
  "isDigit c \<longleftrightarrow> 0x30 \<le> c \<and> c \<le> 0x39"

definition trim :: "jsstring \<Rightarrow> jsstring" where
  "trim s = rev (dropWhile isWhiteSpace (rev (dropWhile isWhiteSpace s)))"

definition startsWith :: "jsstring \<Rightarrow> jsstring \<Rightarrow> bool" where
  "startsWith s p \<longleftrightarrow> take (length p) s = p"

text \<open>An index argument is clamped to \<open>[0, length]\<close>.\<close>

definition clamp_index :: "jsstring \<Rightarrow> int \<Rightarrow> nat" where
  "clamp_index s i = nat (min (max i 0) (int (length s)))"

text \<open>\<open>s.substring(a, b)\<close>: both indices are clamped, and swapped when \<open>a > b\<close>.\<close>

definition substring :: "jsstring \<Rightarrow> int \<Rightarrow> int \<Rightarrow> jsstring" where
  "substring s a b =
     (let i = clamp_index s a; j = clamp_index s b
      in take (max i j - min i j) (drop (min i j) s))"

text \<open>\<open>s.substring(a)\<close>: from the clamped index to the end.\<close>

definition substring_from :: "jsstring \<Rightarrow> int \<Rightarrow> jsstring" where
  "substring_from s a = drop (clamp_index s a) s"

fun first_index :: "code_unit \<Rightarrow> jsstring \<Rightarrow> nat option" where
  "first_index c [] = None"
| "first_index c (x # xs) = (if x = c then Some 0 else map_option Suc (first_index c xs))"

text \<open>
  \<open>s.indexOf(c, pos)\<close> for a search string of one code unit: the first index at or after
  the clamped position, or \<open>-1\<close>.
\<close>

definition indexOf :: "jsstring \<Rightarrow> code_unit \<Rightarrow> int \<Rightarrow> int" where
  "indexOf s c pos =
     (let k = clamp_index s pos
      in case first_index c (drop k s) of None \<Rightarrow> -1 | Some i \<Rightarrow> int (k + i))"

text \<open>
  \<open>s.lastIndexOf(c, pos)\<close> for a search string of one code unit: the last index at or
  before the position, or \<open>-1\<close>. A negative position counts as \<open>0\<close>, so the code unit at
  index \<open>0\<close> is always looked at.
\<close>

definition lastIndexOf :: "jsstring \<Rightarrow> code_unit \<Rightarrow> int \<Rightarrow> int" where
  "lastIndexOf s c pos =
     (let w = take (Suc (nat (max pos 0))) s
      in case first_index c (rev w) of None \<Rightarrow> -1 | Some i \<Rightarrow> int (length w - 1 - i))"

text \<open>\<open>s.split('\n')\<close>: never empty; the empty string gives one empty line.\<close>

fun js_split :: "jsstring \<Rightarrow> jsstring list" where
  "js_split [] = [[]]"
| "js_split (c # cs) =
     (if c = LF then [] # js_split cs else (c # hd (js_split cs)) # tl (js_split cs))"

text \<open>\<open>xs.join(sep)\<close>.\<close>

fun js_join :: "jsstring \<Rightarrow> jsstring list \<Rightarrow> jsstring" where
  "js_join sep [] = []"
| "js_join sep [x] = x"
| "js_join sep (x # y # ys) = x @ sep @ js_join sep (y # ys)"

text \<open>
  \<open>s.replace(pat, r)\<close> with a string pattern: the first occurrence only. The engine's
  replacement is the empty string, so no \<open>$\<close> pattern is expanded.
\<close>

fun js_replace :: "jsstring \<Rightarrow> jsstring \<Rightarrow> jsstring \<Rightarrow> jsstring" where
  "js_replace [] pat r = (if pat = [] then r else [])"
| "js_replace (c # cs) pat r =
     (if startsWith (c # cs) pat then r @ drop (length pat) (c # cs)
      else c # js_replace cs pat r)"

text \<open>
  The regular expression \<open>/^\d+\.\s/\<close> (no flags): the length of its match at the start
  of the string. \<open>\d+\<close> is greedy and a dot is no digit, so the digits matched are all the
  leading ones.
\<close>

definition match_numbered :: "jsstring \<Rightarrow> nat option" where
  "match_numbered s =
     (let ds = takeWhile isDigit s
      in case dropWhile isDigit s of
           d # w # _ \<Rightarrow>
             if ds \<noteq> [] \<and> d = 0x2E \<and> isWhiteSpace w then Some (length ds + 2) else None
         | _ \<Rightarrow> None)"

definition test_numbered :: "jsstring \<Rightarrow> bool" where
  "test_numbered s \<longleftrightarrow> match_numbered s \<noteq> None"

definition replace_numbered :: "jsstring \<Rightarrow> jsstring" where
  "replace_numbered s = (case match_numbered s of None \<Rightarrow> s | Some n \<Rightarrow> drop n s)"

text \<open>The decimal digits of a natural number, as a template literal prints a line number.\<close>

definition digit_unit :: "nat \<Rightarrow> code_unit" where
  "digit_unit d = 0x30 + of_nat d"

fun toString :: "nat \<Rightarrow> jsstring" where
  "toString n = (if n < 10 then [digit_unit n] else toString (n div 10) @ [digit_unit (n mod 10)])"

declare toString.simps [simp del]

text \<open>
  \<open>parseInt(s, 10)\<close>: leading white space is skipped, one sign is read, then the longest
  run of digits; \<open>None\<close> is \<open>NaN\<close>. Whatever follows the digits is ignored.
\<close>

definition digits_value :: "jsstring \<Rightarrow> int" where
  "digits_value z = foldl (\<lambda>a d. 10 * a + (uint d - 48)) 0 z"

definition parseInt :: "jsstring \<Rightarrow> int option" where
  "parseInt s =
     (let t = dropWhile isWhiteSpace s;
          neg = (t \<noteq> [] \<and> hd t = 0x2D);
          u = (if t \<noteq> [] \<and> (hd t = 0x2B \<or> hd t = 0x2D) then tl t else t);
          z = takeWhile isDigit u
      in if z = [] then None
         else Some ((if neg then -1 else 1) * digits_value z))"

section \<open>The host\<close>

text \<open>
  \<open>prompt\<close> returns the string the user entered, or \<open>null\<close> when the dialog is cancelled.
  The answers to the six prompts of the engine are an argument of the model, and with them
  the largest length of a string in the JavaScript engine that runs the code: building a
  longer string raises \<open>RangeError: Invalid string length\<close>.
\<close>

record host =
  link_url :: "jsstring option"
  image_url :: "jsstring option"
  image_alt :: "jsstring option"
  image_width :: "jsstring option"
  table_cols :: "jsstring option"
  table_rows :: "jsstring option"
  max_string_length :: int

text \<open>A string in a condition: \<open>null\<close> and the empty string are falsy.\<close>

definition truthy :: "jsstring option \<Rightarrow> bool" where
  "truthy p = (case p of None \<Rightarrow> False | Some s \<Rightarrow> s \<noteq> [])"

text \<open>\<open>p || d\<close>.\<close>

definition or_default :: "jsstring option \<Rightarrow> jsstring \<Rightarrow> jsstring" where
  "or_default p d = (case p of None \<Rightarrow> d | Some s \<Rightarrow> if s = [] then d else s)"

text \<open>A value inside a template literal: \<open>null\<close> prints as the text \<open>null\<close>.\<close>

definition template_str :: "jsstring option \<Rightarrow> jsstring" where
  "template_str p = (case p of None \<Rightarrow> lit ''null'' | Some s \<Rightarrow> s)"

section \<open>The formatting engine\<close>

datatype FormatAction =
  Bold | Italic | Strikethrough | Code | Link | Image | Table | Ul | Ol
  | H1 | H2 | H3 | H4 | H5 | H6

datatype js_error = RangeError

record selection =
  sel_start :: int
  sel_end :: int

record transform_result =
  newMarkdown :: jsstring
  newSelection :: selection

text \<open>
  The three local variables \<open>newText\<close>, \<open>newSelectionStart\<close> and \<open>newSelectionEnd\<close>
  that the branches of the switch assign before the common exit.
\<close>

record edit =
  newText :: jsstring
  newSelectionStart :: int
  newSelectionEnd :: int

definition wrap :: "jsstring \<Rightarrow> int \<Rightarrow> int \<Rightarrow> jsstring \<Rightarrow> edit" where
  "wrap markdown start end' prefix =
     (let sel = substring markdown start end'
      in \<lparr>newText = prefix @ sel @ prefix,
          newSelectionStart =
            (if sel \<noteq> [] then start + int (length prefix) else start + int (length prefix)),
          newSelectionEnd =
            (if sel \<noteq> [] then start + int (length prefix) + int (length sel)
             else start + int (length prefix))\<rparr>)"

definition applyLineFormatting :: "jsstring \<Rightarrow> int \<Rightarrow> int \<Rightarrow> jsstring \<Rightarrow> edit" where
  "applyLineFormatting markdown start end' linePrefix =
     (let selectedLines = js_split (substring markdown start end');
          allLinesStartWithPrefix =
            list_all (\<lambda>line. startsWith (trim line) linePrefix) selectedLines;
          txt =
            (if allLinesStartWithPrefix
             then js_join [LF] (map (\<lambda>line. js_replace line linePrefix []) selectedLines)
             else js_join [LF]
                    (map (\<lambda>line. if startsWith (trim line) linePrefix then line
                                  else linePrefix @ line) selectedLines))
      in \<lparr>newText = txt, newSelectionStart = start,
          newSelectionEnd = start + int (length txt)\<rparr>)"

definition prefixLine :: "jsstring \<Rightarrow> int \<Rightarrow> int \<Rightarrow> jsstring \<Rightarrow> transform_result" where
  "prefixLine markdown start end' prefix =
     (let lineStart = lastIndexOf markdown LF (start - 1) + 1;
          lineEnd0 = indexOf markdown LF start;
          lineEnd = (if lineEnd0 = -1 then int (length markdown) else lineEnd0);
          line = substring markdown lineStart lineEnd
      in if startsWith (trim line) prefix
         then \<lparr>newMarkdown =
                  substring markdown 0 lineStart @ js_replace line prefix []
                    @ substring_from markdown lineEnd,
                newSelection =
                  \<lparr>sel_start = max lineStart (start - int (length prefix)),
                   sel_end = end' - int (length prefix)\<rparr>\<rparr>
         else \<lparr>newMarkdown =
                  substring markdown 0 lineStart @ prefix @ line
                    @ substring_from markdown lineEnd,
                newSelection =
                  \<lparr>sel_start = start + int (length prefix),
                   sel_end = end' + int (length prefix)\<rparr>\<rparr>)"

definition insert_text :: "jsstring \<Rightarrow> int \<Rightarrow> int \<Rightarrow> jsstring \<Rightarrow> int \<Rightarrow> transform_result" where
  "insert_text markdown start end' txt cursorOffset =
     \<lparr>newMarkdown = substring markdown 0 start @ txt @ substring_from markdown end',
      newSelection = \<lparr>sel_start = start + cursorOffset, sel_end = start + cursorOffset\<rparr>\<rparr>"

text \<open>
  A string that the engine builds from the counts of a table: a RangeError when it is
  longer than the engine allows.
\<close>

definition js_string :: "int \<Rightarrow> jsstring \<Rightarrow> js_error + jsstring" where
  "js_string lim s = (if lim < int (length s) then Inl RangeError else Inr s)"

text \<open>
  \<open>Array(n).fill(x).join(sep)\<close> for an integer \<open>n > 0\<close>: \<open>Array(n)\<close> raises a RangeError
  when \<open>n\<close> is above the largest array length, and \<open>join\<close> one when the joined string
  is too long.
\<close>

definition array_fill_join ::
  "int \<Rightarrow> int \<Rightarrow> jsstring \<Rightarrow> jsstring \<Rightarrow> js_error + jsstring" where
  "array_fill_join lim n x sep =
     (if n \<ge> 2 ^ 32 then Inl RangeError else js_string lim (js_join sep (replicate (nat n) x)))"

text \<open>The template literal of a row: the joined cells between \<open>| \<close> and \<open> |\<close>.\<close>

definition table_row :: "int \<Rightarrow> int \<Rightarrow> jsstring \<Rightarrow> js_error + jsstring" where
  "table_row lim cols cell =
     (case array_fill_join lim cols cell (lit '' | '') of
        Inl e \<Rightarrow> Inl e
      | Inr cells \<Rightarrow> js_string lim (lit ''| '' @ cells @ lit '' |''))"

definition table_text :: "jsstring \<Rightarrow> host \<Rightarrow> js_error + jsstring" where
  "table_text sel aux =
     (let lim = max_string_length aux;
          cols = parseInt (or_default (table_cols aux) (lit ''2''));
          rows = parseInt (or_default (table_rows aux) (lit ''2''))
      in case (cols, rows) of
           (Some c, Some r) \<Rightarrow>
             if c > 0 \<and> r > 0 then
               (case table_row lim c (lit ''Header'') of
                  Inl e \<Rightarrow> Inl e
                | Inr header \<Rightarrow>
                    (case table_row lim c (lit ''---'') of
                       Inl e \<Rightarrow> Inl e
                     | Inr divider \<Rightarrow>
                         (case table_row lim c (lit ''Cell'') of
                            Inl e \<Rightarrow> Inl e
                          | Inr bodyRow \<Rightarrow>
                              (case array_fill_join lim r bodyRow [LF] of
                                 Inl e \<Rightarrow> Inl e
                               | Inr body \<Rightarrow>
                                   js_string lim
                                     ([LF] @ header @ [LF] @ divider @ [LF] @ body @ [LF])))))
             else Inr sel
         | _ \<Rightarrow> Inr sel)"

definition ol_edit :: "jsstring \<Rightarrow> int \<Rightarrow> int \<Rightarrow> edit" where
  "ol_edit markdown start end' =
     (let lines = js_split (substring markdown start end');
          isNumbered = list_all (\<lambda>line. test_numbered (trim line)) lines;
          txt =
            (if isNumbered then js_join [LF] (map replace_numbered lines)
             else js_join [LF]
                    (map (\<lambda>(index, line). toString (index + 1) @ lit ''. '' @ line)
                       (zip [0 ..< length lines] lines)))
      in \<lparr>newText = txt, newSelectionStart = start,
          newSelectionEnd = start + int (length txt)\<rparr>)"

definition link_edit :: "jsstring \<Rightarrow> int \<Rightarrow> int \<Rightarrow> host \<Rightarrow> edit" where
  "link_edit markdown start end' aux =
     (let sel = substring markdown start end';
          txt =
            (if truthy (link_url aux)
             then lit ''['' @ (if sel \<noteq> [] then sel else lit ''link text'') @ lit ''](''
                    @ the (link_url aux) @ lit '')''
             else sel)
      in \<lparr>newText = txt, newSelectionStart = start + int (length txt),
          newSelectionEnd = start + int (length txt)\<rparr>)"

definition image_text :: "jsstring \<Rightarrow> host \<Rightarrow> jsstring" where
  \<open>image_text sel aux =
     (if truthy (image_url aux) then
        (if truthy (image_width aux)
         then lit ''<img src="'' @ template_str (image_url aux) @ lit ''" alt="''
                @ template_str (image_alt aux) @ lit ''" width="''
                @ template_str (image_width aux) @ lit ''">''
         else lit ''!['' @ template_str (image_alt aux) @ lit ''](''
                @ template_str (image_url aux) @ lit '')'')
      else sel)\<close>

text \<open>The common exit of the switch: the selected range is replaced by \<open>newText\<close>.\<close>

definition finish :: "jsstring \<Rightarrow> int \<Rightarrow> int \<Rightarrow> edit \<Rightarrow> transform_result" where
  "finish markdown start end' e =
     \<lparr>newMarkdown = substring markdown 0 start @ newText e @ substring_from markdown end',
      newSelection = \<lparr>sel_start = newSelectionStart e, sel_end = newSelectionEnd e\<rparr>\<rparr>"

fun applyFormat ::
  "FormatAction \<Rightarrow> host \<Rightarrow> jsstring \<Rightarrow> int \<Rightarrow> int \<Rightarrow> js_error + transform_result" where
  "applyFormat Bold aux markdown start end' =
     Inr (finish markdown start end' (wrap markdown start end' (lit ''**'')))"
| "applyFormat Italic aux markdown start end' =
     Inr (finish markdown start end' (wrap markdown start end' (lit ''*'')))"
| "applyFormat Strikethrough aux markdown start end' =
     Inr (finish markdown start end' (wrap markdown start end' (lit ''~~'')))"
| "applyFormat Code aux markdown start end' =
     Inr (finish markdown start end' (wrap markdown start end' (lit ''`'')))"
| "applyFormat H1 aux markdown start end' = Inr (prefixLine markdown start end' (lit ''# ''))"
| "applyFormat H2 aux markdown start end' = Inr (prefixLine markdown start end' (lit ''## ''))"
| "applyFormat H3 aux markdown start end' = Inr (prefixLine markdown start end' (lit ''### ''))"
| "applyFormat H4 aux markdown start end' = Inr (prefixLine markdown start end' (lit ''#### ''))"
| "applyFormat H5 aux markdown start end' = Inr (prefixLine markdown start end' (lit ''##### ''))"
| "applyFormat H6 aux markdown start end' =
     Inr (prefixLine markdown start end' (lit ''###### ''))"
| "applyFormat Ul aux markdown start end' =
     Inr (finish markdown start end' (applyLineFormatting markdown start end' (lit ''- '')))"
| "applyFormat Ol aux markdown start end' =
     Inr (finish markdown start end' (ol_edit markdown start end'))"
| "applyFormat Link aux markdown start end' =
     Inr (finish markdown start end' (link_edit markdown start end' aux))"
| "applyFormat Image aux markdown start end' =
     (let txt = image_text (substring markdown start end') aux
      in Inr (insert_text markdown start end' txt (int (length txt))))"
| "applyFormat Table aux markdown start end' =
     (case table_text (substring markdown start end') aux of
        Inl e \<Rightarrow> Inl e
      | Inr txt \<Rightarrow> Inr (insert_text markdown start end' txt (int (length txt))))"

text \<open>
  The host that cancels every prompt. Its engine is V8 on a 64-bit platform, where the
  largest string length is \<open>2^29 - 24\<close>.
\<close>

definition no_prompts :: host where
  "no_prompts = \<lparr>link_url = None, image_url = None, image_alt = None, image_width = None,
                  table_cols = None, table_rows = None, max_string_length = 536870888\<rparr>"

text \<open>
  The table block in the words of the specification: each row is \<open>| \<close>, the cells
  joined by \<open> | \<close>, and \<open> |\<close>; a header row, a divider row and the body rows, each
  followed by a newline, after a leading newline.
\<close>

definition table_line :: "nat \<Rightarrow> jsstring \<Rightarrow> jsstring" where
  "table_line c cell = lit ''| '' @ js_join (lit '' | '') (replicate c cell) @ lit '' |''"

definition table_block :: "nat \<Rightarrow> nat \<Rightarrow> jsstring" where
  "table_block c r =
     [LF] @ table_line c (lit ''Header'') @ [LF] @ table_line c (lit ''---'') @ [LF]
       @ js_join [LF] (replicate r (table_line c (lit ''Cell''))) @ [LF]"

text \<open>The action applied, and then applied again at the selection that came back.\<close>

definition apply_twice ::
  "FormatAction \<Rightarrow> host \<Rightarrow> jsstring \<Rightarrow> int \<Rightarrow> int \<Rightarrow> js_error + transform_result" where
  "apply_twice f aux md s e =
     (case applyFormat f aux md s e of
        Inl err \<Rightarrow> Inl err
      | Inr r \<Rightarrow>
          applyFormat f aux (newMarkdown r) (sel_start (newSelection r))
            (sel_end (newSelection r)))"

section \<open>Properties of the engine\<close>

subsection \<open>Valid ranges\<close>

lemma substring_valid:
  "0 \<le> a \<Longrightarrow> a \<le> b \<Longrightarrow> b \<le> int (length s) \<Longrightarrow>
     substring s a b = take (nat (b - a)) (drop (nat a) s)"
  by (simp add: substring_def clamp_index_def Let_def min_def max_def nat_diff_distrib)

lemma substring_prefix:
  "0 \<le> b \<Longrightarrow> substring s 0 b = take (nat b) s"
  by (simp add: substring_def clamp_index_def Let_def min_def max_def)

lemma substring_from_valid:
  "0 \<le> a \<Longrightarrow> substring_from s a = drop (nat a) s"
  by (simp add: substring_from_def clamp_index_def min_def max_def)

lemma length_substring_valid:
  "0 \<le> a \<Longrightarrow> a \<le> b \<Longrightarrow> b \<le> int (length s) \<Longrightarrow>
     int (length (substring s a b)) = b - a"
  by (simp add: substring_valid)

lemma lit_append: "lit (a @ b) = lit a @ lit b"
  by (simp add: lit_def)

lemma length_lit: "length (lit s) = length s"
  by (simp add: lit_def)

lemma wrap_eq:
  "wrap md s e p =
     \<lparr>newText = p @ substring md s e @ p, newSelectionStart = s + int (length p),
      newSelectionEnd = s + int (length p) + int (length (substring md s e))\<rparr>"
  by (simp add: wrap_def Let_def)

subsection \<open>Inline wrap\<close>

text \<open>
  Claim C3. On a valid range \<open>[s, e]\<close>, each of the inline actions bold, italic,
  strikethrough and code puts its token on both sides of the selected text and leaves the
  rest of the document alone; the new selection covers the inner text. On an empty
  selection bold inserts \<open>****\<close> and puts the caret between the two tokens.
\<close>

theorem inline_wrap_shape:
  assumes "0 \<le> s" and "s \<le> e" and "e \<le> int (length text)"
    and "(f, token) \<in> {(Bold, lit ''**''), (Italic, lit ''*''),
                        (Strikethrough, lit ''~~''), (Code, lit ''`'')}"
  shows "applyFormat f aux text s e =
           Inr \<lparr>newMarkdown =
                  take (nat s) text @ token @ take (nat (e - s)) (drop (nat s) text) @ token
                    @ drop (nat e) text,
                newSelection =
                  \<lparr>sel_start = s + int (length token),
                   sel_end = s + int (length token) + (e - s)\<rparr>\<rparr>
         \<and> (f = Bold \<and> s = e \<longrightarrow>
              applyFormat f aux text s e =
                Inr \<lparr>newMarkdown = take (nat s) text @ lit ''****'' @ drop (nat e) text,
                     newSelection = \<lparr>sel_start = s + 2, sel_end = s + 2\<rparr>\<rparr>)"
proof -
  have w: "finish text s e (wrap text s e p) =
             \<lparr>newMarkdown =
                  take (nat s) text @ p @ take (nat (e - s)) (drop (nat s) text) @ p
                    @ drop (nat e) text,
                newSelection =
                  \<lparr>sel_start = s + int (length p),
                   sel_end = s + int (length p) + (e - s)\<rparr>\<rparr>" for p
    using assms(1-3)
    by (simp add: finish_def wrap_eq length_substring_valid substring_valid substring_prefix
        substring_from_valid)
  have four: "lit ''****'' = lit ''**'' @ lit ''**''"
    by (simp add: lit_def)
  have general: "applyFormat f aux text s e =
           Inr \<lparr>newMarkdown =
                  take (nat s) text @ token @ take (nat (e - s)) (drop (nat s) text) @ token
                    @ drop (nat e) text,
                newSelection =
                  \<lparr>sel_start = s + int (length token),
                   sel_end = s + int (length token) + (e - s)\<rparr>\<rparr>"
    using assms(4) by (auto simp: w)
  have caret: "applyFormat f aux text s e =
                Inr \<lparr>newMarkdown = take (nat s) text @ lit ''****'' @ drop (nat e) text,
                     newSelection = \<lparr>sel_start = s + 2, sel_end = s + 2\<rparr>\<rparr>"
    if "f = Bold" and "s = e"
  proof -
    from that assms(4) have "token = lit ''**''" by simp
    with general that show ?thesis by (simp add: four length_lit)
  qed
  from general caret show ?thesis by blast
qed

theorem inline_wrap_shape_witness:
  "applyFormat Bold no_prompts (lit ''abcd'') 1 3 =
     Inr \<lparr>newMarkdown = lit ''a**bc**d'', newSelection = \<lparr>sel_start = 3, sel_end = 5\<rparr>\<rparr>"
  using inline_wrap_shape [of 1 3 "lit ''abcd''" Bold "lit ''**''" no_prompts]
  by (simp add: lit_def)

subsection \<open>Block insertion\<close>

lemma insert_text_valid:
  "0 \<le> s \<Longrightarrow> s \<le> e \<Longrightarrow>
     insert_text md s e txt (int (length txt)) =
       \<lparr>newMarkdown = take (nat s) md @ txt @ drop (nat e) md,
        newSelection = \<lparr>sel_start = s + int (length txt), sel_end = s + int (length txt)\<rparr>\<rparr>"
  by (simp add: insert_text_def substring_prefix substring_from_valid)

text \<open>
  Claim C9. When an image URL is given and the prompt for the alt text is cancelled, the
  text \<open>null\<close> is the alt value of what is inserted: an \<open>img\<close> tag when a width is
  given, the Markdown image syntax otherwise.
\<close>

theorem image_alt_cancelled:
  assumes "0 \<le> s" and "s \<le> e" and "e \<le> int (length md)"
    and "image_url aux = Some url" and "url \<noteq> []" and "image_alt aux = None"
  shows \<open>applyFormat Image aux md s e =
           (let txt =
              (case image_width aux of
                 Some (c # cs) \<Rightarrow>
                   lit ''<img src="'' @ url @ lit ''" alt="null" width="'' @ (c # cs) @ lit ''">''
               | _ \<Rightarrow> lit ''![null]('' @ url @ lit '')'')
            in Inr \<lparr>newMarkdown = take (nat s) md @ txt @ drop (nat e) md,
                     newSelection =
                       \<lparr>sel_start = s + int (length txt),
                        sel_end = s + int (length txt)\<rparr>\<rparr>)\<close>
proof -
  have alt: \<open>lit ''" alt="null" width="'' = lit ''" alt="'' @ lit ''null'' @ lit ''" width="''\<close>
    by (simp add: lit_def)
  have img: \<open>lit ''![null]('' = lit ''!['' @ lit ''null'' @ lit ''](''\<close>
    by (simp add: lit_def)
  have body: \<open>image_text (substring md s e) aux =
              (case image_width aux of
                 Some (c # cs) \<Rightarrow>
                   lit ''<img src="'' @ url @ lit ''" alt="null" width="'' @ (c # cs) @ lit ''">''
               | _ \<Rightarrow> lit ''![null]('' @ url @ lit '')'')\<close>
    using assms(4-6)
    by (simp add: image_text_def truthy_def template_str_def alt img
        split: option.splits list.splits)
  show ?thesis
    using assms(1,2) by (simp add: Let_def body insert_text_valid)
qed

theorem image_alt_cancelled_witness:
  \<open>applyFormat Image (no_prompts\<lparr>image_url := Some (lit ''u.png'')\<rparr>) (lit ''xy'') 1 1 =
     Inr \<lparr>newMarkdown = lit ''x![null](u.png)y'',
          newSelection = \<lparr>sel_start = 15, sel_end = 15\<rparr>\<rparr>\<close>
  using image_alt_cancelled [of 1 1 "lit ''xy''" "no_prompts\<lparr>image_url := Some (lit ''u.png'')\<rparr>"
      "lit ''u.png''"]
  by (simp add: lit_def no_prompts_def)

subsection \<open>Decimal numbers\<close>

lemma digit_cases: "d < 10 \<Longrightarrow> d \<in> {0, 1, 2, 3, 4, 5, 6, 7, 8, 9::nat}"
  by auto

lemma isDigit_digit_unit: "d < 10 \<Longrightarrow> isDigit (digit_unit d)"
  by (drule digit_cases) (auto simp: isDigit_def digit_unit_def)

lemma uint_digit_unit: "d < 10 \<Longrightarrow> uint (digit_unit d) = 48 + int d"
  by (drule digit_cases) (auto simp: digit_unit_def)

lemma isDigit_not_space: "isDigit c \<Longrightarrow> \<not> isWhiteSpace c"
  using order_trans [of "8192 :: 16 word" c 57]
  by (auto simp: isDigit_def isWhiteSpace_def)

lemma isDigit_not_sign: "isDigit c \<Longrightarrow> c \<noteq> 0x2B \<and> c \<noteq> 0x2D"
  by (auto simp: isDigit_def)

lemma toString_digits: "list_all isDigit (toString n)"
  by (induction n rule: toString.induct)
     (subst toString.simps, simp add: isDigit_digit_unit)

lemma toString_not_Nil: "toString n \<noteq> []"
  by (subst toString.simps) simp

lemma digits_value_snoc: "digits_value (z @ [d]) = 10 * digits_value z + (uint d - 48)"
  by (simp add: digits_value_def)

lemma digits_value_toString: "digits_value (toString n) = int n"
proof (induction n rule: toString.induct)
  case (1 n)
  show ?case
  proof (cases "n < 10")
    case True
    then show ?thesis
      by (subst toString.simps) (simp add: digits_value_def uint_digit_unit)
  next
    case False
    with 1 have "digits_value (toString (n div 10)) = int (n div 10)" by simp
    with False show ?thesis
      by (subst toString.simps) (simp add: digits_value_snoc uint_digit_unit zdiv_int zmod_int)
  qed
qed

lemma parseInt_toString: "parseInt (toString n) = Some (int n)"
proof -
  obtain c cs where cs: "toString n = c # cs"
    using toString_not_Nil [of n] by (cases "toString n") auto
  have all: "list_all isDigit (toString n)"
    by (rule toString_digits)
  then have c: "isDigit c" by (simp add: cs)
  have tw: "takeWhile isDigit (toString n) = toString n"
    using all by (simp add: list_all_iff)
  have dw: "dropWhile isWhiteSpace (toString n) = toString n"
    using isDigit_not_space [OF c] by (simp add: cs)
  have sign: "hd (toString n) \<noteq> 0x2B" "hd (toString n) \<noteq> 0x2D"
    using isDigit_not_sign [OF c] by (simp_all add: cs)
  show ?thesis
    unfolding parseInt_def Let_def dw
    by (simp add: sign tw toString_not_Nil digits_value_toString)
qed


subsection \<open>Table insertion\<close>

lemma or_default_Some: "x \<noteq> [] \<Longrightarrow> or_default (Some x) d = x"
  by (simp add: or_default_def)

lemma length_js_join_replicate:
  "length (js_join sep (x # replicate n x)) = Suc n * length x + n * length sep"
  by (induction n) simp_all

lemma length_table_line:
  "0 < c \<Longrightarrow> length (table_line c cell) = c * length cell + 3 * c + 1"
  by (cases c) (simp_all add: table_line_def length_js_join_replicate length_lit)

lemma length_table_block:
  "0 < c \<Longrightarrow> 0 < r \<Longrightarrow> length (table_block c r) = 15 * c + 7 * c * r + 2 * r + 5"
  by (cases r)
     (simp_all add: table_block_def length_table_line length_js_join_replicate length_lit
       algebra_simps)

lemma table_row_cases:
  "c < 2 ^ 32 \<Longrightarrow>
     table_row lim c cell =
       (if int (length (table_line (nat c) cell)) \<le> lim then Inr (table_line (nat c) cell)
        else Inl RangeError)"
  by (simp add: table_row_def array_fill_join_def js_string_def table_line_def)

lemma table_body_cases:
  "r < 2 ^ 32 \<Longrightarrow>
     array_fill_join lim r x [LF] =
       (if int (length (js_join [LF] (replicate (nat r) x))) \<le> lim
        then Inr (js_join [LF] (replicate (nat r) x)) else Inl RangeError)"
  by (simp add: array_fill_join_def js_string_def)

text \<open>
  With counts that are read as \<open>c\<close> and \<open>r\<close>, both positive and below \<open>2^32\<close>, the text
  of the table is the block when the engine can hold it, and a RangeError otherwise.
\<close>

lemma table_text_counts:
  assumes "parseInt (or_default (table_cols aux) (lit ''2'')) = Some (int c)"
    and "parseInt (or_default (table_rows aux) (lit ''2'')) = Some (int r)"
    and "0 < c" and "c < 2 ^ 32" and "0 < r" and "r < 2 ^ 32"
  shows "table_text sel aux =
           (if int (length (table_block c r)) \<le> max_string_length aux then Inr (table_block c r)
            else Inl RangeError)"
proof -
  let ?lim = "max_string_length aux"
  let ?row = "table_line c (lit ''Cell'')"
  let ?body = "js_join [LF] (replicate r ?row)"
  have c: "int c < 2 ^ 32" and r: "int r < 2 ^ 32"
    using assms(4,6) by simp_all
  have row: "table_row ?lim (int c) cell =
               (if int (length (table_line c cell)) \<le> ?lim then Inr (table_line c cell)
                else Inl RangeError)" for cell
    using table_row_cases [OF c] by simp
  have body: "array_fill_join ?lim (int r) ?row [LF] =
                (if int (length ?body) \<le> ?lim then Inr ?body else Inl RangeError)"
    using table_body_cases [OF r] by simp
  obtain j where j: "r = Suc j"
    using assms(5) by (cases r) auto
  have parts: "length (table_line c (lit ''Header'')) \<le> length (table_block c r)"
    "length (table_line c (lit ''---'')) \<le> length (table_block c r)"
    "length ?body \<le> length (table_block c r)"
    by (simp_all add: table_block_def)
  have "length ?row \<le> length ?body"
    by (simp add: j length_js_join_replicate)
  with parts(3) have cell: "length ?row \<le> length (table_block c r)"
    by simp
  have block: "[LF] @ table_line c (lit ''Header'') @ [LF] @ table_line c (lit ''---'') @ [LF]
                 @ ?body @ [LF] = table_block c r"
    by (simp add: table_block_def)
  show ?thesis
  proof (cases "int (length (table_block c r)) \<le> ?lim")
    case True
    with parts cell show ?thesis
      using assms(3,5)
      by (simp add: table_text_def Let_def assms(1,2) row body js_string_def block
          del: append.simps)
  next
    case False
    then show ?thesis
      using assms(3,5)
      by (simp add: table_text_def Let_def assms(1,2) row body js_string_def block
          del: append.simps)
  qed
qed

lemma table_text_ok:
  assumes "parseInt (or_default (table_cols aux) (lit ''2'')) = Some (int c)"
    and "parseInt (or_default (table_rows aux) (lit ''2'')) = Some (int r)"
    and "0 < c" and "c < 2 ^ 32" and "0 < r" and "r < 2 ^ 32"
    and "int (length (table_block c r)) \<le> max_string_length aux"
  shows "table_text sel aux = Inr (table_block c r)"
  using table_text_counts [OF assms(1-6)] assms(7) by simp

text \<open>
  Claim C8, amended. On a valid range, when the column and row inputs are the decimal
  numbers \<open>c\<close> and \<open>r\<close>, both positive and below \<open>2^32\<close>, and the new document is not
  longer than the largest string of the engine, the selected range is replaced by the
  table block of \<open>c\<close> columns and \<open>r\<close> body rows, and the caret collapses to the end of
  the block.
\<close>

theorem table_insertion:
  assumes "0 \<le> s" and "s \<le> e" and "e \<le> int (length md)"
    and "0 < c" and "c < 2 ^ 32" and "0 < r" and "r < 2 ^ 32"
    and "table_cols aux = Some (toString c)" and "table_rows aux = Some (toString r)"
    and "int (length (take (nat s) md @ table_block c r @ drop (nat e) md))
           \<le> max_string_length aux"
  shows "applyFormat Table aux md s e =
           Inr \<lparr>newMarkdown = take (nat s) md @ table_block c r @ drop (nat e) md,
                newSelection =
                  \<lparr>sel_start = s + int (length (table_block c r)),
                   sel_end = s + int (length (table_block c r))\<rparr>\<rparr>"
proof -
  have fits: "int (length (table_block c r)) \<le> max_string_length aux"
    using assms(10) by simp
  have "table_text (substring md s e) aux = Inr (table_block c r)"
    using assms(4-7) fits
    by (intro table_text_ok)
       (simp_all add: assms(8,9) or_default_Some toString_not_Nil parseInt_toString)
  then show ?thesis
    using assms(1,2) by (simp add: insert_text_valid)
qed

lemma toString_small: "n < 10 \<Longrightarrow> toString n = [digit_unit n]"
  by (subst toString.simps) simp

theorem table_insertion_witness:
  "applyFormat Table (no_prompts\<lparr>table_cols := Some (lit ''3''), table_rows := Some (lit ''1'')\<rparr>)
     (lit ''xy'') 1 1 =
     Inr \<lparr>newMarkdown =
            lit ''x'' @ [LF] @ lit ''| Header | Header | Header |'' @ [LF]
              @ lit ''| --- | --- | --- |'' @ [LF] @ lit ''| Cell | Cell | Cell |'' @ [LF]
              @ lit ''y'',
          newSelection = \<lparr>sel_start = 74, sel_end = 74\<rparr>\<rparr>"
proof -
  have three: "toString 3 = lit ''3''" and one: "toString (Suc 0) = lit ''1''"
    by (simp_all add: toString_small digit_unit_def lit_def)
  have block: "table_block 3 1 =
      [LF] @ lit ''| Header | Header | Header |'' @ [LF]
              @ lit ''| --- | --- | --- |'' @ [LF] @ lit ''| Cell | Cell | Cell |'' @ [LF]"
    by (simp add: table_block_def table_line_def lit_def numeral_3_eq_3)
  have "applyFormat Table
          (no_prompts\<lparr>table_cols := Some (lit ''3''), table_rows := Some (lit ''1'')\<rparr>)
          (lit ''xy'') 1 1 =
        Inr \<lparr>newMarkdown = take (nat 1) (lit ''xy'') @ table_block 3 1 @ drop (nat 1) (lit ''xy''),
             newSelection =
               \<lparr>sel_start = 1 + int (length (table_block 3 1)),
                sel_end = 1 + int (length (table_block 3 1))\<rparr>\<rparr>"
    by (rule table_insertion)
       (simp_all add: three one length_lit length_table_block no_prompts_def)
  then show ?thesis
    unfolding block by (simp add: lit_def)
qed

text \<open>
  A column count of \<open>2^32\<close> is a positive integer, and \<open>Array(cols)\<close> raises a
  RangeError for it: no block is inserted.
\<close>

theorem table_insertion_counterexample:
  "applyFormat Table
     (no_prompts\<lparr>table_cols := Some (lit ''4294967296''), table_rows := Some (lit ''1'')\<rparr>)
     [] 0 0 = Inl RangeError"
  by code_simp

text \<open>
  Counts below \<open>2^32\<close> can still ask for more text than the engine holds: a table of
  20000 columns and 20000 rows has more than \<open>2^29 - 24\<close> code units, and building it
  raises a RangeError.
\<close>

lemma table_too_long:
  assumes "table_cols aux = Some (toString 20000)" and "table_rows aux = Some (toString 20000)"
    and "max_string_length aux = 536870888"
  shows "applyFormat Table aux md s e = Inl RangeError"
proof -
  have "table_text (substring md s e) aux =
          (if int (length (table_block 20000 20000)) \<le> max_string_length aux
           then Inr (table_block 20000 20000) else Inl RangeError)"
    by (rule table_text_counts)
       (simp_all add: assms(1,2) or_default_Some toString_not_Nil parseInt_toString)
  moreover have "length (table_block 20000 20000) = 2800340005"
    by (simp add: length_table_block)
  ultimately show ?thesis
    by (simp add: assms(3))
qed

lemma insert_text_caret:
  "insert_text md 0 0 txt (int (length txt)) =
     \<lparr>newMarkdown = txt @ md,
      newSelection = \<lparr>sel_start = int (length txt), sel_end = int (length txt)\<rparr>\<rparr>"
  by (simp add: insert_text_def substring_def substring_from_def clamp_index_def)

lemma parseInt_examples:
  "parseInt (lit ''3.7'') = Some 3" "parseInt (lit ''2px'') = Some 2"
  "parseInt (lit ''2'') = Some 2"
  by code_simp+

subsection \<open>The counts of a table\<close>

text \<open>
  \<open>parseInt\<close> reads the longest run of digits behind leading white space and ignores what
  follows it.
\<close>

lemma parseInt_leading_integer:
  assumes "list_all isWhiteSpace w" and "g = [] \<or> \<not> isDigit (hd g)"
  shows "parseInt (w @ toString n @ g) = Some (int n)"
proof -
  obtain c cs where cs: "toString n = c # cs"
    using toString_not_Nil [of n] by (cases "toString n") auto
  have all: "\<forall>x \<in> set (toString n). isDigit x"
    using toString_digits [of n] by (simp add: list_all_iff)
  then have c: "isDigit c" by (simp add: cs)
  have "dropWhile isWhiteSpace (w @ toString n @ g) = dropWhile isWhiteSpace (toString n @ g)"
    using assms(1) by (simp add: list_all_iff dropWhile_append)
  then have dw: "dropWhile isWhiteSpace (w @ toString n @ g) = toString n @ g"
    using isDigit_not_space [OF c] by (simp add: cs)
  have "takeWhile isDigit (toString n @ g) = toString n @ takeWhile isDigit g"
    using all by (simp add: takeWhile_append2)
  moreover have "takeWhile isDigit g = []"
    using assms(2) by (cases g) auto
  ultimately have tw: "takeWhile isDigit (toString n @ g) = toString n"
    by simp
  have sign: "hd (toString n) \<noteq> 0x2B" "hd (toString n) \<noteq> 0x2D"
    using isDigit_not_sign [OF c] by (simp_all add: cs)
  have nonempty: "toString n @ g \<noteq> []"
    by (simp add: toString_not_Nil)
  show ?thesis
    unfolding parseInt_def Let_def dw
    by (simp add: sign tw nonempty toString_not_Nil digits_value_toString)
qed

lemma count_answer_parseInt:
  assumes "p = None \<and> n = 2 \<or> p = Some [] \<and> n = 2
           \<or> p = Some (w @ toString n @ g) \<and> list_all isWhiteSpace w
               \<and> (g = [] \<or> \<not> isDigit (hd g))"
  shows "parseInt (or_default p (lit ''2'')) = Some (int n)"
proof -
  from assms consider
    (default) "p = None \<or> p = Some []" "n = 2"
    | (given) "p = Some (w @ toString n @ g)" "list_all isWhiteSpace w"
        "g = [] \<or> \<not> isDigit (hd g)"
    by blast
  then show ?thesis
  proof cases
    case default
    then show ?thesis
      by (auto simp: or_default_def parseInt_examples)
  next
    case given
    have "or_default (Some (w @ toString n @ g)) (lit ''2'') = w @ toString n @ g"
      by (rule or_default_Some) (simp add: toString_not_Nil)
    with given show ?thesis
      by (simp only: parseInt_leading_integer)
  qed
qed

text \<open>
  Claim C10. The column and the row input of a table are read by \<open>parseInt\<close>: an input
  that is white space, the decimal number \<open>n\<close> and then anything that does not start with
  a digit counts as \<open>n\<close>, and a cancelled or empty input counts as the default 2. On a
  valid range, with counts \<open>c\<close> and \<open>r\<close> read in this way, both positive and below
  \<open>2^32\<close>, and a new document that is not longer than the largest string of the engine,
  the table of \<open>c\<close> columns and \<open>r\<close> body rows is inserted and the caret collapses to
  its end.
\<close>

theorem table_counts_parseInt:
  assumes "0 \<le> s" and "s \<le> e" and "e \<le> int (length md)"
    and "table_cols aux = None \<and> c = 2 \<or> table_cols aux = Some [] \<and> c = 2
         \<or> table_cols aux = Some (wc @ toString c @ gc) \<and> list_all isWhiteSpace wc
             \<and> (gc = [] \<or> \<not> isDigit (hd gc))"
    and "table_rows aux = None \<and> r = 2 \<or> table_rows aux = Some [] \<and> r = 2
         \<or> table_rows aux = Some (wr @ toString r @ gr) \<and> list_all isWhiteSpace wr
             \<and> (gr = [] \<or> \<not> isDigit (hd gr))"
    and "0 < c" and "c < 2 ^ 32" and "0 < r" and "r < 2 ^ 32"
    and "int (length (take (nat s) md @ table_block c r @ drop (nat e) md))
           \<le> max_string_length aux"
  shows "applyFormat Table aux md s e =
           Inr \<lparr>newMarkdown = take (nat s) md @ table_block c r @ drop (nat e) md,
                newSelection =
                  \<lparr>sel_start = s + int (length (table_block c r)),
                   sel_end = s + int (length (table_block c r))\<rparr>\<rparr>"
proof -
  have fits: "int (length (table_block c r)) \<le> max_string_length aux"
    using assms(10) by simp
  have "table_text (substring md s e) aux = Inr (table_block c r)"
    using count_answer_parseInt [OF assms(4)] count_answer_parseInt [OF assms(5)]
      assms(6-9) fits
    by (rule table_text_ok)
  then show ?thesis
    using assms(1,2) by (simp add: insert_text_valid)
qed

theorem table_counts_parseInt_witness:
  "applyFormat Table
     (no_prompts\<lparr>table_cols := Some (lit ''3.7''), table_rows := Some (lit ''2px'')\<rparr>)
     (lit ''xy'') 1 1 =
     Inr \<lparr>newMarkdown =
            lit ''x'' @ [LF] @ lit ''| Header | Header | Header |'' @ [LF]
              @ lit ''| --- | --- | --- |'' @ [LF] @ lit ''| Cell | Cell | Cell |'' @ [LF]
              @ lit ''| Cell | Cell | Cell |'' @ [LF] @ lit ''y'',
          newSelection = \<lparr>sel_start = 97, sel_end = 97\<rparr>\<rparr>
   \<and> applyFormat Table no_prompts (lit ''xy'') 1 1 =
       Inr \<lparr>newMarkdown =
              lit ''x'' @ [LF] @ lit ''| Header | Header |'' @ [LF]
                @ lit ''| --- | --- |'' @ [LF] @ lit ''| Cell | Cell |'' @ [LF]
                @ lit ''| Cell | Cell |'' @ [LF] @ lit ''y'',
            newSelection = \<lparr>sel_start = 68, sel_end = 68\<rparr>\<rparr>"
proof -
  have three: "toString 3 = lit ''3''" and two: "toString 2 = lit ''2''"
    by (simp_all add: toString_small digit_unit_def lit_def)
  have inputs: "lit ''3.7'' = [] @ lit ''3'' @ lit ''.7''" "lit ''2px'' = [] @ lit ''2'' @ lit ''px''"
    by (simp_all add: lit_def)
  have garbage: "\<not> isDigit (hd (lit ''.7''))" "\<not> isDigit (hd (lit ''px''))"
    by (simp_all add: lit_def isDigit_def)
  have block32: "table_block 3 2 =
      [LF] @ lit ''| Header | Header | Header |'' @ [LF]
        @ lit ''| --- | --- | --- |'' @ [LF] @ lit ''| Cell | Cell | Cell |'' @ [LF]
        @ lit ''| Cell | Cell | Cell |'' @ [LF]"
    by (simp add: table_block_def table_line_def lit_def numeral_3_eq_3 numeral_2_eq_2)
  have block22: "table_block 2 2 =
      [LF] @ lit ''| Header | Header |'' @ [LF]
        @ lit ''| --- | --- |'' @ [LF] @ lit ''| Cell | Cell |'' @ [LF]
        @ lit ''| Cell | Cell |'' @ [LF]"
    by (simp add: table_block_def table_line_def lit_def numeral_2_eq_2)
  have "applyFormat Table
          (no_prompts\<lparr>table_cols := Some (lit ''3.7''), table_rows := Some (lit ''2px'')\<rparr>)
          (lit ''xy'') 1 1 =
        Inr \<lparr>newMarkdown = take (nat 1) (lit ''xy'') @ table_block 3 2 @ drop (nat 1) (lit ''xy''),
             newSelection =
               \<lparr>sel_start = 1 + int (length (table_block 3 2)),
                sel_end = 1 + int (length (table_block 3 2))\<rparr>\<rparr>"
    by (rule table_counts_parseInt
          [where wc = "[]" and gc = "lit ''.7''" and wr = "[]" and gr = "lit ''px''"])
       (simp_all add: three two inputs garbage length_lit length_table_block no_prompts_def
         del: append.simps)
  then have given: "applyFormat Table
          (no_prompts\<lparr>table_cols := Some (lit ''3.7''), table_rows := Some (lit ''2px'')\<rparr>)
          (lit ''xy'') 1 1 =
     Inr \<lparr>newMarkdown =
            lit ''x'' @ [LF] @ lit ''| Header | Header | Header |'' @ [LF]
              @ lit ''| --- | --- | --- |'' @ [LF] @ lit ''| Cell | Cell | Cell |'' @ [LF]
              @ lit ''| Cell | Cell | Cell |'' @ [LF] @ lit ''y'',
          newSelection = \<lparr>sel_start = 97, sel_end = 97\<rparr>\<rparr>"
    unfolding block32 by (simp add: lit_def)
  have "applyFormat Table no_prompts (lit ''xy'') 1 1 =
        Inr \<lparr>newMarkdown = take (nat 1) (lit ''xy'') @ table_block 2 2 @ drop (nat 1) (lit ''xy''),
             newSelection =
               \<lparr>sel_start = 1 + int (length (table_block 2 2)),
                sel_end = 1 + int (length (table_block 2 2))\<rparr>\<rparr>"
    by (rule table_counts_parseInt [where wc = "[]" and gc = "[]" and wr = "[]" and gr = "[]"])
       (simp_all add: length_lit length_table_block no_prompts_def)
  then have cancelled: "applyFormat Table no_prompts (lit ''xy'') 1 1 =
       Inr \<lparr>newMarkdown =
              lit ''x'' @ [LF] @ lit ''| Header | Header |'' @ [LF]
                @ lit ''| --- | --- |'' @ [LF] @ lit ''| Cell | Cell |'' @ [LF]
                @ lit ''| Cell | Cell |'' @ [LF] @ lit ''y'',
            newSelection = \<lparr>sel_start = 68, sel_end = 68\<rparr>\<rparr>"
    unfolding block22 by (simp add: lit_def)
  from given cancelled show ?thesis ..
qed

subsection \<open>Bounds of the new selection\<close>

text \<open>
  Claim C2. The selection that comes back is not always inside the new document: with
  the caret in front of a heading's prefix, removing the prefix gives a selection that
  ends before it starts, here at \<open>-2\<close>.
\<close>

theorem heading_selection_out_of_bounds:
  "applyFormat H1 aux (lit ''# a'') 0 0 =
     Inr \<lparr>newMarkdown = lit ''a'', newSelection = \<lparr>sel_start = 0, sel_end = - 2\<rparr>\<rparr>"
  by code_simp

subsection \<open>Ordered lists\<close>

text \<open>
  Claim C6. A line with white space in front of its number passes the test, which looks
  at the trimmed line, and keeps its number, since the replacement is anchored at the
  start of the untrimmed line.
\<close>

theorem ol_indented_line_not_stripped:
  "test_numbered (trim (lit '' 1. x''))
   \<and> applyFormat Ol aux (lit '' 1. x'') 0 5 =
       Inr \<lparr>newMarkdown = lit '' 1. x'', newSelection = \<lparr>sel_start = 0, sel_end = 5\<rparr>\<rparr>"
  by code_simp

subsection \<open>Declined input\<close>

lemma replace_selection_by_itself:
  assumes "0 \<le> s" and "s \<le> e" and "e \<le> int (length md)"
  shows "take (nat s) md @ substring md s e @ drop (nat e) md = md"
proof -
  have n: "nat (e - s) + nat s = nat e"
    using assms by simp
  have "substring md s e @ drop (nat e) md =
          take (nat (e - s)) (drop (nat s) md) @ drop (nat (e - s)) (drop (nat s) md)"
    using assms by (simp add: substring_valid n)
  also have "\<dots> = drop (nat s) md"
    by (rule append_take_drop_id)
  finally show ?thesis
    by simp
qed

lemma table_text_declined:
  assumes "(case parseInt (or_default (table_cols aux) (lit ''2'')) of
              None \<Rightarrow> True | Some c \<Rightarrow> c \<le> 0)
           \<or> (case parseInt (or_default (table_rows aux) (lit ''2'')) of
                None \<Rightarrow> True | Some r \<Rightarrow> r \<le> 0)"
  shows "table_text sel aux = Inr sel"
  using assms by (auto simp: table_text_def Let_def split: option.splits)

text \<open>
  Claim C4, amended. On a valid range, when the link URL or the image URL is cancelled or
  empty, or when a table count, after a cancelled or empty answer has been replaced by
  the default \<open>2\<close>, is not read as a positive number, the document comes back unchanged
  and the selection collapses to the end of the original selection.
\<close>

theorem declined_input_noop:
  assumes "0 \<le> s" and "s \<le> e" and "e \<le> int (length md)"
    and "f = Link \<and> \<not> truthy (link_url aux)
         \<or> f = Image \<and> \<not> truthy (image_url aux)
         \<or> f = Table
             \<and> ((case parseInt (or_default (table_cols aux) (lit ''2'')) of
                    None \<Rightarrow> True | Some c \<Rightarrow> c \<le> 0)
                \<or> (case parseInt (or_default (table_rows aux) (lit ''2'')) of
                      None \<Rightarrow> True | Some r \<Rightarrow> r \<le> 0))"
  shows "applyFormat f aux md s e =
           Inr \<lparr>newMarkdown = md, newSelection = \<lparr>sel_start = e, sel_end = e\<rparr>\<rparr>"
proof -
  note same = replace_selection_by_itself [OF assms(1-3)]
  have len: "s + int (length (substring md s e)) = e"
    using assms(1-3) by (simp add: length_substring_valid)
  from assms(4) consider
    (link) "f = Link" "\<not> truthy (link_url aux)"
    | (image) "f = Image" "\<not> truthy (image_url aux)"
    | (table) "f = Table" "table_text (substring md s e) aux = Inr (substring md s e)"
    using table_text_declined by blast
  then show ?thesis
  proof cases
    case link
    then show ?thesis
      using assms(1,2)
      by (simp add: finish_def link_edit_def Let_def substring_prefix substring_from_valid
          same len)
  next
    case image
    then show ?thesis
      using assms(1,2) by (simp add: image_text_def insert_text_valid same len)
  next
    case table
    then show ?thesis
      using assms(1,2) by (simp add: insert_text_valid same len)
  qed
qed

theorem declined_input_noop_witness:
  "applyFormat Table (no_prompts\<lparr>table_cols := Some (lit ''abc'')\<rparr>) (lit ''xy'') 0 1 =
     Inr \<lparr>newMarkdown = lit ''xy'', newSelection = \<lparr>sel_start = 1, sel_end = 1\<rparr>\<rparr>"
proof -
  have nan: "parseInt (or_default (Some (lit ''abc'')) (lit ''2'')) = None"
    by code_simp
  show ?thesis
    by (rule declined_input_noop) (simp_all add: nan length_lit)
qed

text \<open>
  Cancelled table prompts give the table of two columns and two rows, not the unchanged
  document; and a declined image URL collapses the selection \<open>[0, 2]\<close> to \<open>[2, 2]\<close>.
\<close>

theorem declined_input_noop_counterexample:
  "applyFormat Table no_prompts [] 0 0 =
     Inr \<lparr>newMarkdown = table_block 2 2,
          newSelection =
            \<lparr>sel_start = int (length (table_block 2 2)),
             sel_end = int (length (table_block 2 2))\<rparr>\<rparr>
   \<and> table_block 2 2 \<noteq> []
   \<and> applyFormat Image no_prompts (lit ''ab'') 0 2 =
       Inr \<lparr>newMarkdown = lit ''ab'', newSelection = \<lparr>sel_start = 2, sel_end = 2\<rparr>\<rparr>"
proof -
  have "table_text sel no_prompts = Inr (table_block 2 2)" for sel
    by (rule table_text_ok)
       (simp_all add: no_prompts_def or_default_def parseInt_examples length_table_block)
  moreover have "table_block 2 2 \<noteq> []"
    by (simp add: table_block_def)
  moreover have "applyFormat Image no_prompts (lit ''ab'') 0 2 =
       Inr \<lparr>newMarkdown = lit ''ab'', newSelection = \<lparr>sel_start = 2, sel_end = 2\<rparr>\<rparr>"
    by code_simp
  ultimately show ?thesis
    by (simp add: insert_text_caret)
qed

subsection \<open>Lines and prefixes\<close>

lemma js_split_not_Nil: "js_split s \<noteq> []"
  by (induction s) auto

lemma js_join_split: "js_join [LF] (js_split s) = s"
proof (induction s)
  case Nil
  show ?case by simp
next
  case (Cons c cs)
  obtain l ls where sp: "js_split cs = l # ls"
    using js_split_not_Nil [of cs] by (cases "js_split cs") auto
  with Cons show ?case
    by (cases ls) auto
qed

lemma rev_dropWhile_takeWhile:
  "rev (dropWhile P (rev xs)) @ rev (takeWhile P (rev xs)) = xs"
  by (metis rev_append rev_rev_ident takeWhile_dropWhile_id)

lemma trim_prefix_of_dropWhile:
  "dropWhile isWhiteSpace l =
     trim l @ rev (takeWhile isWhiteSpace (rev (dropWhile isWhiteSpace l)))"
  unfolding trim_def by (rule rev_dropWhile_takeWhile [symmetric])

lemma startsWith_append: "startsWith s p \<Longrightarrow> startsWith (s @ t) p"
  by (metis append_eq_conv_conj append_assoc startsWith_def append_take_drop_id)

lemma startsWith_trim_dropWhile:
  "startsWith (trim l) p \<Longrightarrow> startsWith (dropWhile isWhiteSpace l) p"
  by (subst trim_prefix_of_dropWhile) (rule startsWith_append)

lemma startsWith_decompose: "startsWith s p \<Longrightarrow> s = p @ drop (length p) s"
  by (metis append_take_drop_id startsWith_def)

lemma js_replace_after:
  assumes "\<forall>c\<in>set w. c \<noteq> hd p" and "p \<noteq> []" and "startsWith t p"
  shows "js_replace (w @ t) p r = w @ r @ drop (length p) t"
  using assms(1)
proof (induction w)
  case Nil
  from assms(2,3) have "t \<noteq> []"
    by (auto simp: startsWith_def)
  then obtain c cs where "t = c # cs"
    by (cases t) auto
  with assms(3) show ?case by simp
next
  case (Cons c w)
  from assms(2) obtain q qs where p: "p = q # qs"
    by (cases p) auto
  with Cons.prems have "c \<noteq> q" by simp
  then have "\<not> startsWith (c # w @ t) p"
    by (auto simp: startsWith_def p)
  with Cons show ?case by simp
qed

lemma js_replace_trimmed_prefix:
  assumes "startsWith (trim l) p" and "p \<noteq> []" and "\<not> isWhiteSpace (hd p)"
  shows "js_replace l p [] =
           takeWhile isWhiteSpace l @ drop (length p) (dropWhile isWhiteSpace l)"
    and "l = takeWhile isWhiteSpace l @ p @ drop (length p) (dropWhile isWhiteSpace l)"
proof -
  let ?w = "takeWhile isWhiteSpace l" and ?t = "dropWhile isWhiteSpace l"
  have t: "startsWith ?t p"
    using assms(1) by (rule startsWith_trim_dropWhile)
  have w: "\<forall>c\<in>set ?w. c \<noteq> hd p"
    using assms(3) by (metis set_takeWhileD)
  have "js_replace (?w @ ?t) p [] = ?w @ [] @ drop (length p) ?t"
    using w assms(2) t by (rule js_replace_after)
  then show "js_replace l p [] = ?w @ drop (length p) ?t"
    by simp
  have "?w @ ?t = ?w @ p @ drop (length p) ?t"
    using startsWith_decompose [OF t] by simp
  then show "l = ?w @ p @ drop (length p) ?t"
    by simp
qed


subsection \<open>Unordered lists\<close>

lemma ul_prefix: "lit ''- '' \<noteq> []" "\<not> isWhiteSpace (hd (lit ''- ''))" "length (lit ''- '') = 2"
  by (simp_all add: lit_def isWhiteSpace_def)

text \<open>
  Claim C7. On a valid range the selected text is split into lines. When the trimmed
  content of every line starts with \<open>- \<close>, each line is its leading white space, the
  prefix and a rest, and becomes the white space and the rest; otherwise \<open>- \<close> is put
  in front of each line whose trimmed content does not start with it, and the other
  lines stay as they are. The lines, joined by newlines, replace the selection, and the
  new selection is the replaced block.
\<close>

theorem ul_toggle:
  assumes "0 \<le> s" and "s \<le> e" and "e \<le> int (length md)"
  shows "applyFormat Ul aux md s e =
           (let lines = js_split (take (nat (e - s)) (drop (nat s) md));
                newLines =
                  (if \<forall>l \<in> set lines. startsWith (trim l) (lit ''- '')
                   then map (\<lambda>l. takeWhile isWhiteSpace l @ drop 2 (dropWhile isWhiteSpace l))
                          lines
                   else map (\<lambda>l. if startsWith (trim l) (lit ''- '') then l else lit ''- '' @ l)
                          lines);
                joined = js_join [LF] newLines
            in Inr \<lparr>newMarkdown = take (nat s) md @ joined @ drop (nat e) md,
                    newSelection = \<lparr>sel_start = s, sel_end = s + int (length joined)\<rparr>\<rparr>)
         \<and> (\<forall>l. startsWith (trim l) (lit ''- '') \<longrightarrow>
                l = takeWhile isWhiteSpace l @ lit ''- '' @ drop 2 (dropWhile isWhiteSpace l))"
proof -
  have strip: "js_replace l (lit ''- '') [] =
                 takeWhile isWhiteSpace l @ drop 2 (dropWhile isWhiteSpace l)"
    if "startsWith (trim l) (lit ''- '')" for l
    using js_replace_trimmed_prefix(1) [OF that ul_prefix(1,2)] by (simp add: ul_prefix(3))
  have keep: "l = takeWhile isWhiteSpace l @ lit ''- '' @ drop 2 (dropWhile isWhiteSpace l)"
    if "startsWith (trim l) (lit ''- '')" for l
    using js_replace_trimmed_prefix(2) [OF that ul_prefix(1,2)] by (simp add: ul_prefix(3))
  have sel: "substring md s e = take (nat (e - s)) (drop (nat s) md)"
    using assms by (rule substring_valid)
  have "applyFormat Ul aux md s e =
           (let lines = js_split (take (nat (e - s)) (drop (nat s) md));
                newLines =
                  (if \<forall>l \<in> set lines. startsWith (trim l) (lit ''- '')
                   then map (\<lambda>l. takeWhile isWhiteSpace l @ drop 2 (dropWhile isWhiteSpace l))
                          lines
                   else map (\<lambda>l. if startsWith (trim l) (lit ''- '') then l else lit ''- '' @ l)
                          lines);
                joined = js_join [LF] newLines
            in Inr \<lparr>newMarkdown = take (nat s) md @ joined @ drop (nat e) md,
                    newSelection = \<lparr>sel_start = s, sel_end = s + int (length joined)\<rparr>\<rparr>)"
    using assms(1,2)
    by (simp add: finish_def applyLineFormatting_def Let_def sel substring_prefix
        substring_from_valid list_all_iff strip cong: map_cong)
  with keep show ?thesis
    by blast
qed


theorem ul_toggle_witness:
  "applyFormat Ul no_prompts (lit ''a'' @ [LF] @ lit ''- b'') 0 5 =
     Inr \<lparr>newMarkdown = lit ''- a'' @ [LF] @ lit ''- b'',
          newSelection = \<lparr>sel_start = 0, sel_end = 7\<rparr>\<rparr>
   \<and> applyFormat Ul no_prompts (lit ''- a'' @ [LF] @ lit ''- b'') 0 7 =
       Inr \<lparr>newMarkdown = lit ''a'' @ [LF] @ lit ''b'',
            newSelection = \<lparr>sel_start = 0, sel_end = 3\<rparr>\<rparr>"
proof -
  have ws: "\<not> isWhiteSpace 97" "\<not> isWhiteSpace 98" "\<not> isWhiteSpace 45" "isWhiteSpace 32"
    by (simp_all add: isWhiteSpace_def)
  have first: "applyFormat Ul no_prompts (lit ''a'' @ [LF] @ lit ''- b'') 0 5 =
     Inr \<lparr>newMarkdown = lit ''- a'' @ [LF] @ lit ''- b'',
          newSelection = \<lparr>sel_start = 0, sel_end = 7\<rparr>\<rparr>"
    using ul_toggle [THEN conjunct1, of 0 5 "lit ''a'' @ [LF] @ lit ''- b''" no_prompts]
    by (simp add: lit_def LF_def trim_def startsWith_def ws)
  have second: "applyFormat Ul no_prompts (lit ''- a'' @ [LF] @ lit ''- b'') 0 7 =
       Inr \<lparr>newMarkdown = lit ''a'' @ [LF] @ lit ''b'',
            newSelection = \<lparr>sel_start = 0, sel_end = 3\<rparr>\<rparr>"
    using ul_toggle [THEN conjunct1, of 0 7 "lit ''- a'' @ [LF] @ lit ''- b''" no_prompts]
    by (simp add: lit_def LF_def trim_def startsWith_def ws)
  from first second show ?thesis ..
qed

subsection \<open>The line of the caret\<close>

lemma first_index_eq:
  "first_index c xs =
     (if c \<in> set xs then Some (length (takeWhile (\<lambda>x. x \<noteq> c) xs)) else None)"
  by (induction xs) auto

lemma takeWhile_line_then_LF:
  "LF \<notin> set xs \<Longrightarrow> ys = [] \<or> hd ys = LF \<Longrightarrow>
     takeWhile (\<lambda>x. x \<noteq> LF) (xs @ ys) = xs"
  by (induction xs) (cases ys; auto)+

lemma indexOf_line:
  assumes "LF \<notin> set L" and "B = [] \<or> hd B = LF"
    and "int (length A) \<le> s" and "s \<le> int (length A + length L)"
  shows "indexOf (A @ L @ B) LF s = (if B = [] then - 1 else int (length A + length L))"
proof -
  define j where "j = nat s - length A"
  have k: "clamp_index (A @ L @ B) s = length A + j" and j: "j \<le> length L"
    using assms(3,4) by (auto simp: clamp_index_def j_def)
  have d: "drop (length A + j) (A @ L @ B) = drop j L @ B"
    using j by simp
  have nl: "LF \<notin> set (drop j L)"
    using assms(1) by (meson in_set_dropD)
  have tw: "takeWhile (\<lambda>x. x \<noteq> LF) (drop j L @ B) = drop j L"
    using nl assms(2) by (rule takeWhile_line_then_LF)
  have mem: "LF \<in> set (drop j L @ B) \<longleftrightarrow> B \<noteq> []"
    using nl assms(2) by (cases B) auto
  show ?thesis
    unfolding indexOf_def Let_def k d first_index_eq tw mem
    using j by auto
qed

lemma lastIndexOf_line:
  assumes "LF \<notin> set L" and "A = [] \<or> last A = LF"
    and "int (length A) \<le> s" and "s \<le> int (length A + length L)"
    and "L \<noteq> [] \<or> A \<noteq> [] \<or> B = []"
  shows "lastIndexOf (A @ L @ B) LF (s - 1) + 1 = int (length A)"
proof (cases "s = 0")
  case True
  with assms(3) have A: "A = []" by simp
  have "LF \<notin> set (take (Suc 0) (L @ B))"
  proof (cases L)
    case Nil
    with assms(5) A show ?thesis by simp
  next
    case (Cons c cs)
    with assms(1) show ?thesis by auto
  qed
  then show ?thesis
    by (simp add: lastIndexOf_def True A first_index_eq)
next
  case False
  with assms(3) have pos: "1 \<le> s" by simp
  define j where "j = nat s - length A"
  have s: "Suc (nat (max (s - 1) 0)) = length A + j" and j: "j \<le> length L"
    using assms(3,4) pos by (auto simp: j_def)
  have w: "take (length A + j) (A @ L @ B) = A @ take j L"
    using j by simp
  have nl: "LF \<notin> set (rev (take j L))"
    using assms(1) by (auto dest: in_set_takeD)
  have tw: "takeWhile (\<lambda>x. x \<noteq> LF) (rev (take j L) @ rev A) = rev (take j L)"
    using nl
  proof (rule takeWhile_line_then_LF)
    show "rev A = [] \<or> hd (rev A) = LF"
      using assms(2) by (auto simp: hd_rev)
  qed
  have mem: "LF \<in> set (rev (take j L) @ rev A) \<longleftrightarrow> A \<noteq> []"
    using nl assms(2) by (cases A rule: rev_cases) auto
  show ?thesis
    unfolding lastIndexOf_def Let_def s w rev_append first_index_eq tw mem
    using j by (cases A) auto
qed

lemma prefixLine_line:
  assumes "LF \<notin> set L" and "A = [] \<or> last A = LF" and "B = [] \<or> hd B = LF"
    and "int (length A) \<le> s" and "s \<le> int (length A + length L)"
    and "L \<noteq> [] \<or> A \<noteq> [] \<or> B = []"
  shows "prefixLine (A @ L @ B) s e p =
           (if startsWith (trim L) p
            then \<lparr>newMarkdown = A @ js_replace L p [] @ B,
                  newSelection =
                    \<lparr>sel_start = max (int (length A)) (s - int (length p)),
                     sel_end = e - int (length p)\<rparr>\<rparr>
            else \<lparr>newMarkdown = A @ p @ L @ B,
                  newSelection =
                    \<lparr>sel_start = s + int (length p), sel_end = e + int (length p)\<rparr>\<rparr>)"
proof -
  have ls: "lastIndexOf (A @ L @ B) LF (s - 1) + 1 = int (length A)"
    using assms(1,2,4,5,6) by (rule lastIndexOf_line)
  have le: "(if indexOf (A @ L @ B) LF s = - 1 then int (length (A @ L @ B))
             else indexOf (A @ L @ B) LF s) = int (length A + length L)"
    using indexOf_line [OF assms(1,3,4,5)] by auto
  have line: "substring (A @ L @ B) (int (length A)) (int (length A + length L)) = L"
    by (simp add: substring_valid)
  have before: "substring (A @ L @ B) 0 (int (length A)) = A"
    by (simp add: substring_prefix)
  have after: "substring_from (A @ L @ B) (int (length A + length L)) = B"
    by (simp add: substring_from_valid)
  show ?thesis
    unfolding prefixLine_def Let_def ls le line before after by simp
qed


text \<open>
  With the caret at offset 0 of a document that starts with a newline, \<open>lastIndexOf\<close> is
  called with position \<open>-1\<close> and finds the newline at index 0: the line start is 1,
  behind the line end 0, and the newline itself is taken for the line.
\<close>

lemma prefixLine_leading_newline:
  "newMarkdown (prefixLine (LF # B) 0 e p) =
     (if p = [] then [LF] @ js_replace [LF] p [] @ LF # B else [LF] @ p @ [LF] @ LF # B)"
proof -
  have ls: "lastIndexOf (LF # B) LF (- 1) = 0"
    by (simp add: lastIndexOf_def)
  have le: "indexOf (LF # B) LF 0 = 0"
    by (simp add: indexOf_def clamp_index_def)
  have line: "substring (LF # B) 1 0 = [LF]"
    by (simp add: substring_def clamp_index_def)
  have before: "substring (LF # B) 0 1 = [LF]"
    by (simp add: substring_def clamp_index_def)
  have after: "substring_from (LF # B) 0 = LF # B"
    by (simp add: substring_from_def clamp_index_def)
  have tr: "trim [LF] = []"
    by (simp add: trim_def isWhiteSpace_def LF_def)
  have sw: "startsWith [] p \<longleftrightarrow> p = []"
    by (auto simp: startsWith_def)
  show ?thesis
    by (simp add: prefixLine_def Let_def ls le line before after tr sw)
qed

lemma prefixLine_frame:
  assumes "LF \<notin> set L" and "A = [] \<or> last A = LF" and "B = [] \<or> hd B = LF"
    and "int (length A) \<le> s" and "s \<le> int (length A + length L)"
  shows "\<exists>mid. newMarkdown (prefixLine (A @ L @ B) s e p) = A @ mid @ B"
proof (cases "L \<noteq> [] \<or> A \<noteq> [] \<or> B = []")
  case True
  show ?thesis
    unfolding prefixLine_line [OF assms True] by auto
next
  case False
  with assms(3) obtain B' where B: "B = LF # B'"
    by (cases B) auto
  from False assms(4,5) have s: "s = 0" by simp
  from False show ?thesis
    by (simp add: B s prefixLine_leading_newline)
qed

lemma caret_line_exists:
  assumes "0 \<le> s" and "s \<le> int (length md)"
  shows "\<exists>A L B. md = A @ L @ B \<and> LF \<notin> set L \<and> (A = [] \<or> last A = LF)
           \<and> (B = [] \<or> hd B = LF) \<and> int (length A) \<le> s
           \<and> s \<le> int (length A + length L)"
proof -
  let ?P = "\<lambda>x. x \<noteq> LF"
  define A where "A = rev (dropWhile ?P (rev (take (nat s) md)))"
  define L1 where "L1 = rev (takeWhile ?P (rev (take (nat s) md)))"
  define L2 where "L2 = takeWhile ?P (drop (nat s) md)"
  define B where "B = dropWhile ?P (drop (nat s) md)"
  have left: "A @ L1 = take (nat s) md"
    unfolding A_def L1_def by (rule rev_dropWhile_takeWhile)
  have right: "L2 @ B = drop (nat s) md"
    unfolding L2_def B_def by simp
  have md: "md = A @ (L1 @ L2) @ B"
    using left right by (metis append_assoc append_take_drop_id)
  have L: "LF \<notin> set (L1 @ L2)"
    unfolding L1_def L2_def by (auto dest: set_takeWhileD)
  have A: "A = [] \<or> last A = LF"
    unfolding A_def using hd_dropWhile [of ?P "rev (take (nat s) md)"]
    by (auto simp: last_rev)
  have B: "B = [] \<or> hd B = LF"
    unfolding B_def using hd_dropWhile [of ?P "drop (nat s) md"] by auto
  have "length (A @ L1) = nat s"
    using assms by (simp add: left)
  then have len: "int (length A) \<le> s" "s \<le> int (length A + length (L1 @ L2))"
    using assms(1) by auto
  from md L A B len show ?thesis
    by blast
qed


subsection \<open>Locality\<close>

lemma finish_frame:
  "0 \<le> s \<Longrightarrow> s \<le> e \<Longrightarrow>
     newMarkdown (finish md s e ed) = take (nat s) md @ newText ed @ drop (nat e) md"
  by (simp add: finish_def substring_prefix substring_from_valid)

text \<open>
  Claim C1, amended. On a valid range, whenever the engine returns a result: an action
  other than a heading changes the document only between \<open>start\<close> and \<open>end\<close>; a
  heading action changes it only on the line of the caret, so that the text before that
  line and the text from the end of that line on are unchanged. The line of the caret is
  the part \<open>L\<close> of a document \<open>A @ L @ B\<close> that has no newline, follows a newline or
  starts the document, and is followed by a newline or ends the document.
\<close>

theorem locality:
  assumes "0 \<le> s" and "s \<le> e" and "e \<le> int (length md)"
    and "applyFormat f aux md s e = Inr r"
  shows "if f \<in> {H1, H2, H3, H4, H5, H6}
         then \<forall>A L B. md = A @ L @ B \<and> LF \<notin> set L \<and> (A = [] \<or> last A = LF)
                  \<and> (B = [] \<or> hd B = LF) \<and> int (length A) \<le> s
                  \<and> s \<le> int (length A + length L)
                \<longrightarrow> (\<exists>mid. newMarkdown r = A @ mid @ B)
         else \<exists>mid. newMarkdown r = take (nat s) md @ mid @ drop (nat e) md"
proof (cases "f \<in> {H1, H2, H3, H4, H5, H6}")
  case True
  then obtain p where r: "r = prefixLine md s e p"
    using assms(4) by auto
  have "\<exists>mid. newMarkdown r = A @ mid @ B"
    if "md = A @ L @ B" and "LF \<notin> set L" and "A = [] \<or> last A = LF"
      and "B = [] \<or> hd B = LF" and "int (length A) \<le> s"
      and "s \<le> int (length A + length L)" for A L B
    unfolding r that(1) using that(2-6) by (rule prefixLine_frame)
  with True show ?thesis
    by simp
next
  case False
  have fin: "\<exists>mid. newMarkdown (finish md s e ed) = take (nat s) md @ mid @ drop (nat e) md"
    for ed
    using finish_frame [OF assms(1,2)] by blast
  have ins: "\<exists>mid. newMarkdown (insert_text md s e t (int (length t))) =
                 take (nat s) md @ mid @ drop (nat e) md" for t
    using assms(1,2) by (simp add: insert_text_valid)
  from False assms(4) have "\<exists>mid. newMarkdown r = take (nat s) md @ mid @ drop (nat e) md"
    by (cases f) (auto simp: fin ins Let_def split: sum.splits)
  with False show ?thesis
    by simp
qed

theorem locality_witness:
  "applyFormat H1 no_prompts (lit ''x'' @ [LF] @ lit ''ab'' @ [LF] @ lit ''y'') 3 3 =
     Inr \<lparr>newMarkdown = lit ''x'' @ [LF] @ lit ''# ab'' @ [LF] @ lit ''y'',
          newSelection = \<lparr>sel_start = 5, sel_end = 5\<rparr>\<rparr>
   \<and> (\<exists>mid. lit ''x'' @ [LF] @ lit ''# ab'' @ [LF] @ lit ''y'' =
              (lit ''x'' @ [LF]) @ mid @ ([LF] @ lit ''y''))"
proof -
  let ?md = "lit ''x'' @ [LF] @ lit ''ab'' @ [LF] @ lit ''y''"
  let ?r = "\<lparr>newMarkdown = lit ''x'' @ [LF] @ lit ''# ab'' @ [LF] @ lit ''y'',
            newSelection = \<lparr>sel_start = 5, sel_end = 5\<rparr>\<rparr>"
  have run: "applyFormat H1 no_prompts ?md 3 3 = Inr ?r"
    by code_simp
  have len: "3 \<le> int (length ?md)"
    by (simp add: lit_def)
  have "\<forall>A L B. ?md = A @ L @ B \<and> LF \<notin> set L \<and> (A = [] \<or> last A = LF)
                  \<and> (B = [] \<or> hd B = LF) \<and> int (length A) \<le> 3
                  \<and> 3 \<le> int (length A + length L)
                \<longrightarrow> (\<exists>mid. newMarkdown ?r = A @ mid @ B)"
    using locality [of 3 3 ?md H1 no_prompts ?r, OF _ _ len run] by simp
  then have "?md = (lit ''x'' @ [LF]) @ lit ''ab'' @ ([LF] @ lit ''y'')
      \<and> LF \<notin> set (lit ''ab'') \<and> (lit ''x'' @ [LF] = [] \<or> last (lit ''x'' @ [LF]) = LF)
      \<and> ([LF] @ lit ''y'' = [] \<or> hd ([LF] @ lit ''y'') = LF)
      \<and> int (length (lit ''x'' @ [LF])) \<le> 3
      \<and> 3 \<le> int (length (lit ''x'' @ [LF]) + length (lit ''ab''))
      \<longrightarrow> (\<exists>mid. newMarkdown ?r = (lit ''x'' @ [LF]) @ mid @ ([LF] @ lit ''y''))"
    by blast
  moreover have "LF \<notin> set (lit ''ab'')"
    by (simp add: lit_def LF_def)
  ultimately have "\<exists>mid. newMarkdown ?r = (lit ''x'' @ [LF]) @ mid @ ([LF] @ lit ''y'')"
    by (simp add: length_lit)
  with run show ?thesis
    by simp
qed

text \<open>
  The first heading applied with the caret behind the \<open>a\<close> of \<open>ab\<close> gives \<open># ab\<close>:
  the text before the caret is not a prefix of the new document.
\<close>

theorem locality_counterexample:
  "applyFormat H1 no_prompts (lit ''ab'') 1 1 =
     Inr \<lparr>newMarkdown = lit ''# ab'', newSelection = \<lparr>sel_start = 3, sel_end = 3\<rparr>\<rparr>
   \<and> take 1 (lit ''# ab'') \<noteq> take 1 (lit ''ab'')"
  by code_simp

subsection \<open>Heading toggle\<close>

lemma startsWith_trim_prefixed:
  assumes "p \<noteq> []" and "\<not> isWhiteSpace (hd p)" and "\<exists>c \<in> set R. \<not> isWhiteSpace c"
  shows "startsWith (trim (p @ R)) p"
proof -
  from assms(1) obtain q qs where p: "p = q # qs"
    by (cases p) auto
  have front: "dropWhile isWhiteSpace (p @ R) = p @ R"
    using assms(2) by (simp add: p)
  have "\<exists>c \<in> set (rev R). \<not> isWhiteSpace c"
    using assms(3) by simp
  then have "dropWhile isWhiteSpace (rev R @ rev p) = dropWhile isWhiteSpace (rev R) @ rev p"
    by auto
  then have "trim (p @ R) = p @ rev (dropWhile isWhiteSpace (rev R))"
    by (simp add: trim_def front)
  then show ?thesis
    by (simp add: startsWith_def)
qed

lemma js_replace_at_start: "p \<noteq> [] \<Longrightarrow> js_replace (p @ R) p [] = R"
  using js_replace_after [of "[]" p "p @ R" "[]"] by (simp add: startsWith_def)

lemma heading_prefix:
  assumes "(h, p) \<in> {(H1, lit ''# ''), (H2, lit ''## ''), (H3, lit ''### ''),
                      (H4, lit ''#### ''), (H5, lit ''##### ''), (H6, lit ''###### '')}"
  shows "applyFormat h aux md s e = Inr (prefixLine md s e p)"
    and "p \<noteq> []" and "\<not> isWhiteSpace (hd p)" and "LF \<notin> set p"
  using assms by (auto simp: lit_def isWhiteSpace_def LF_def)


text \<open>
  Claim C5, amended. Let \<open>L\<close> be the line of the caret and \<open>p\<close> the prefix of the heading
  action. When \<open>L\<close> has a code unit that is not white space and its trimmed content does
  not start with \<open>p\<close>, applying the action twice gives back the document and the
  selection. When \<open>L\<close> is \<open>p\<close> followed by a rest that has a code unit that is not white
  space and whose trimmed content does not start with \<open>p\<close>, applying the action twice
  gives back the document, and the selection except that its start is not before the end
  of the prefix.
\<close>

theorem heading_toggle_round_trip:
  assumes "md = A @ L @ B" and "LF \<notin> set L" and "A = [] \<or> last A = LF"
    and "B = [] \<or> hd B = LF" and "int (length A) \<le> s"
    and "s \<le> int (length A + length L)"
    and "(h, p) \<in> {(H1, lit ''# ''), (H2, lit ''## ''), (H3, lit ''### ''),
                      (H4, lit ''#### ''), (H5, lit ''##### ''), (H6, lit ''###### '')}"
    and "(\<exists>c \<in> set L. \<not> isWhiteSpace c) \<and> \<not> startsWith (trim L) p
         \<or> (\<exists>R. L = p @ R \<and> (\<exists>c \<in> set R. \<not> isWhiteSpace c)
                  \<and> \<not> startsWith (trim R) p)"
  shows "apply_twice h aux md s e =
           Inr \<lparr>newMarkdown = md,
                newSelection =
                  \<lparr>sel_start =
                     (if startsWith (trim L) p then max (int (length A) + int (length p)) s
                      else s),
                   sel_end = e\<rparr>\<rparr>"
proof -
  note hp = heading_prefix [OF assms(7)]
  have twice: "apply_twice h aux md s e =
                 (let r = prefixLine md s e p
                  in Inr (prefixLine (newMarkdown r) (sel_start (newSelection r))
                       (sel_end (newSelection r)) p))"
    by (simp add: apply_twice_def hp(1) Let_def)
  from assms(8) show ?thesis
  proof (elim disjE conjE exE)
    assume L: "\<exists>c \<in> set L. \<not> isWhiteSpace c" and plain: "\<not> startsWith (trim L) p"
    from L have nonempty: "L \<noteq> [] \<or> A \<noteq> [] \<or> B = []"
      by auto
    have first: "prefixLine md s e p =
        \<lparr>newMarkdown = A @ (p @ L) @ B,
         newSelection = \<lparr>sel_start = s + int (length p), sel_end = e + int (length p)\<rparr>\<rparr>"
      unfolding assms(1) prefixLine_line [OF assms(2-6) nonempty] using plain by simp
    have line: "LF \<notin> set (p @ L)"
      using hp(4) assms(2) by simp
    have caret: "int (length A) \<le> s + int (length p)"
      "s + int (length p) \<le> int (length A + length (p @ L))"
      using assms(5,6) by simp_all
    have nonempty': "p @ L \<noteq> [] \<or> A \<noteq> [] \<or> B = []"
      using hp(2) by simp
    have prefixed: "startsWith (trim (p @ L)) p"
      using hp(2,3) L by (rule startsWith_trim_prefixed)
    have second: "prefixLine (A @ (p @ L) @ B) (s + int (length p)) (e + int (length p)) p =
        \<lparr>newMarkdown = A @ L @ B, newSelection = \<lparr>sel_start = s, sel_end = e\<rparr>\<rparr>"
      unfolding prefixLine_line [OF line assms(3,4) caret nonempty']
      using prefixed assms(5) by (simp add: js_replace_at_start [OF hp(2)])
    have second': "prefixLine (A @ p @ L @ B) (s + int (length p)) (e + int (length p)) p =
        \<lparr>newMarkdown = A @ L @ B, newSelection = \<lparr>sel_start = s, sel_end = e\<rparr>\<rparr>"
      using second by simp
    have "apply_twice h aux md s e =
            Inr \<lparr>newMarkdown = A @ L @ B, newSelection = \<lparr>sel_start = s, sel_end = e\<rparr>\<rparr>"
      by (simp add: twice first second')
    then show ?thesis
      using plain by (simp add: assms(1))
  next
    fix R
    assume LR: "L = p @ R" and R: "\<exists>c \<in> set R. \<not> isWhiteSpace c"
      and plain: "\<not> startsWith (trim R) p"
    have prefixed: "startsWith (trim L) p"
      unfolding LR using hp(2,3) R by (rule startsWith_trim_prefixed)
    have nonempty: "L \<noteq> [] \<or> A \<noteq> [] \<or> B = []"
      using hp(2) LR by simp
    have first: "prefixLine md s e p =
        \<lparr>newMarkdown = A @ R @ B,
         newSelection =
           \<lparr>sel_start = max (int (length A)) (s - int (length p)),
            sel_end = e - int (length p)\<rparr>\<rparr>"
      unfolding assms(1) prefixLine_line [OF assms(2-6) nonempty]
      using prefixed by (simp add: LR js_replace_at_start [OF hp(2)])
    have line: "LF \<notin> set R"
      using assms(2) LR by simp
    have caret: "int (length A) \<le> max (int (length A)) (s - int (length p))"
      "max (int (length A)) (s - int (length p)) \<le> int (length A + length R)"
      using assms(6) LR by simp_all
    have nonempty': "R \<noteq> [] \<or> A \<noteq> [] \<or> B = []"
      using R by auto
    have second: "prefixLine (A @ R @ B) (max (int (length A)) (s - int (length p)))
          (e - int (length p)) p =
        \<lparr>newMarkdown = A @ p @ R @ B,
         newSelection =
           \<lparr>sel_start = max (int (length A)) (s - int (length p)) + int (length p),
            sel_end = e\<rparr>\<rparr>"
      unfolding prefixLine_line [OF line assms(3,4) caret nonempty']
      using plain by simp
    have start: "max (int (length A)) (s - int (length p)) + int (length p) =
                   max (int (length A) + int (length p)) s"
      by simp
    have "apply_twice h aux md s e =
            Inr \<lparr>newMarkdown = A @ p @ R @ B,
                 newSelection =
                   \<lparr>sel_start = max (int (length A) + int (length p)) s, sel_end = e\<rparr>\<rparr>"
      by (simp only: twice first second start Let_def transform_result.simps selection.simps)
    then show ?thesis
      using prefixed by (simp add: assms(1) LR)
  qed
qed

theorem heading_toggle_round_trip_witness:
  "apply_twice H1 no_prompts (lit ''x'' @ [LF] @ lit ''ab'' @ [LF] @ lit ''y'') 3 3 =
     Inr \<lparr>newMarkdown = lit ''x'' @ [LF] @ lit ''ab'' @ [LF] @ lit ''y'',
          newSelection = \<lparr>sel_start = 3, sel_end = 3\<rparr>\<rparr>"
proof -
  have ws: "\<not> isWhiteSpace 97" "\<not> isWhiteSpace 98"
    by (simp_all add: isWhiteSpace_def)
  have plain: "\<not> startsWith (trim (lit ''ab'')) (lit ''# '')"
    by (simp add: lit_def trim_def startsWith_def ws)
  have "apply_twice H1 no_prompts ((lit ''x'' @ [LF]) @ lit ''ab'' @ ([LF] @ lit ''y'')) 3 3 =
           Inr \<lparr>newMarkdown = (lit ''x'' @ [LF]) @ lit ''ab'' @ ([LF] @ lit ''y''),
                newSelection =
                  \<lparr>sel_start =
                     (if startsWith (trim (lit ''ab'')) (lit ''# '')
                      then max (int (length (lit ''x'' @ [LF])) + int (length (lit ''# ''))) 3
                      else 3),
                   sel_end = 3\<rparr>\<rparr>"
    by (rule heading_toggle_round_trip [where h = H1])
       (simp_all add: plain, simp_all add: lit_def LF_def ws)
  then show ?thesis
    by (simp add: plain)
qed

text \<open>
  On the empty document the first heading gives \<open># \<close>, whose trimmed content \<open>#\<close> does
  not start with the prefix, and the second application gives \<open># # \<close>.
\<close>

theorem heading_toggle_round_trip_counterexample:
  "apply_twice H1 no_prompts [] 0 0 =
     Inr \<lparr>newMarkdown = lit ''# # '', newSelection = \<lparr>sel_start = 4, sel_end = 4\<rparr>\<rparr>"
  by code_simp

subsection \<open>Further facts\<close>

text \<open>
  Apart from the headings, every action returns a selection inside the new document.
\<close>

lemma selection_in_bounds_no_heading:
  assumes "0 \<le> s" and "s \<le> e" and "e \<le> int (length md)"
    and "f \<notin> {H1, H2, H3, H4, H5, H6}" and "applyFormat f aux md s e = Inr r"
  shows "0 \<le> sel_start (newSelection r) \<and> sel_start (newSelection r) \<le> sel_end (newSelection r)
         \<and> sel_end (newSelection r) \<le> int (length (newMarkdown r))"
proof -
  have len: "int (length (substring md s e)) = e - s"
    using assms(1-3) by (rule length_substring_valid)
  have fin: ?thesis
    if "r = finish md s e ed" and "s \<le> newSelectionStart ed"
      and "newSelectionStart ed \<le> newSelectionEnd ed"
      and "newSelectionEnd ed \<le> s + int (length (newText ed))" for ed
  proof -
    have "int (length (newMarkdown r)) = s + int (length (newText ed)) + (int (length md) - e)"
      using assms(1-3) by (simp add: that(1) finish_frame)
    moreover have "newSelection r =
        \<lparr>sel_start = newSelectionStart ed, sel_end = newSelectionEnd ed\<rparr>"
      by (simp add: that(1) finish_def)
    ultimately show ?thesis
      using that(2-4) assms(1-3) by simp
  qed
  have ins: ?thesis if "r = insert_text md s e t (int (length t))" for t
    using assms(1-3) by (simp add: that insert_text_valid)
  show ?thesis
  proof (cases f)
    case Bold
    with assms(5) show ?thesis
      by (intro fin [of "wrap md s e (lit ''**'')"]) (simp_all add: wrap_eq len assms(2))
  next
    case Italic
    with assms(5) show ?thesis
      by (intro fin [of "wrap md s e (lit ''*'')"]) (simp_all add: wrap_eq len assms(2))
  next
    case Strikethrough
    with assms(5) show ?thesis
      by (intro fin [of "wrap md s e (lit ''~~'')"]) (simp_all add: wrap_eq len assms(2))
  next
    case Code
    with assms(5) show ?thesis
      by (intro fin [of "wrap md s e (lit ''`'')"]) (simp_all add: wrap_eq len assms(2))
  next
    case Ul
    with assms(5) show ?thesis
      by (intro fin [of "applyLineFormatting md s e (lit ''- '')"])
         (simp_all add: applyLineFormatting_def Let_def)
  next
    case Ol
    with assms(5) show ?thesis
      by (intro fin [of "ol_edit md s e"]) (simp_all add: ol_edit_def Let_def)
  next
    case Link
    with assms(5) show ?thesis
      by (intro fin [of "link_edit md s e aux"]) (simp_all add: link_edit_def Let_def)
  next
    case Image
    with assms(5) show ?thesis
      by (intro ins [of "image_text (substring md s e) aux"]) (simp add: Let_def)
  next
    case Table
    with assms(5) obtain t where "r = insert_text md s e t (int (length t))"
      by (auto split: sum.splits)
    then show ?thesis
      by (rule ins)
  qed (use assms(4) in simp_all)
qed

text \<open>
  Lines that start with their number are stripped, and lines without a number are
  numbered from 1.
\<close>

lemma ol_examples:
  "applyFormat Ol aux (lit ''3. x'' @ [LF] @ lit ''7. y'') 0 9 =
     Inr \<lparr>newMarkdown = lit ''x'' @ [LF] @ lit ''y'',
          newSelection = \<lparr>sel_start = 0, sel_end = 3\<rparr>\<rparr>"
  "applyFormat Ol aux (lit ''x'' @ [LF] @ lit ''y'') 0 3 =
     Inr \<lparr>newMarkdown = lit ''1. x'' @ [LF] @ lit ''2. y'',
          newSelection = \<lparr>sel_start = 0, sel_end = 9\<rparr>\<rparr>"
  by code_simp+

end
